theory Spec2Isabelle
  imports Complex_Main "HOL-Library.Sublist" "HOL-Library.Char_ord" "HOL-Library.List_Lexorder"
begin

section \<open>Data model of \<^verbatim>\<open>yapper_analysis.py\<close>\<close>

text \<open>
  The script works on pandas data frames.  A frame is modelled as the list of its rows,
  in row order.  The activity file has the columns named in \<^verbatim>\<open>read_data\<close>;
  \<^verbatim>\<open>ds\<close> stays the text read from the file (the date filters of the aggregators
  compare it with a text literal).  A cell that pandas holds as NaN (a missing
  country, a missing industry name) is \<open>None\<close>.  The integer columns are 64-bit in
  pandas: they are modelled as \<open>int\<close>, and the wrap-around is written out where the
  script does integer arithmetic on them.

  The type of the cells of \<^verbatim>\<open>active_users\<close> is a parameter \<open>'u\<close> of the rows.
  pandas reads the column as 64-bit integers, \<open>'u = int\<close>, when every cell of the file
  holds an integer; this is the column of the specification, and the functions that
  compute with the cells are modelled for it.  When a cell of the file is empty the
  column is read as floats with NaN in the empty cells, \<open>'u = float64\<close>.
\<close>

datatype float64 = Finite rat | PosInf | NegInf | NaN

record 'u activity =
  ds :: string
  team_id :: int
  country :: "string option"
  industry_id :: int
  active_users :: 'u
  messages_7d :: int

text \<open>The joined frame has the activity columns and the industry name.\<close>

record 'u joined = "'u activity" +
  industry :: "string option"

text \<open>
  \<^verbatim>\<open>notna\<close> of pandas on a cell: no cell of an integer column is missing, and NaN
  is the missing cell of a float column.
\<close>

definition notna_int64 :: "int \<Rightarrow> bool" where
  "notna_int64 c = True"


text \<open>
  The industry map, reduced to the two columns the script uses: the rows
  \<open>(industry_id, industry)\<close> in file order.  Duplicated identifiers are possible.
\<close>

type_synonym industry_map = "(int \<times> string option) list"

datatype error = ValueError | ParserError

subsection \<open>64-bit integer arithmetic\<close>

definition is_int64 :: "int \<Rightarrow> bool" where
  "is_int64 x = (- (2 ^ 63) \<le> x \<and> x < 2 ^ 63)"

definition int64 :: "int \<Rightarrow> int" where
  "int64 x = (x + 2 ^ 63) mod 2 ^ 64 - 2 ^ 63"

definition sum_int64 :: "int list \<Rightarrow> int" where
  "sum_int64 xs = fold (\<lambda>x acc. int64 (acc + x)) xs 0"

subsection \<open>Grouping\<close>

text \<open>
  \<^verbatim>\<open>df.groupby([col])\<close> with the defaults of pandas: the groups are the distinct
  keys that are not missing, in ascending key order, each with its rows in frame order.
  A group has at least one row, so the minimum, the maximum and the mean of a group are
  those of a list that is not empty.
\<close>

definition groupby :: "('r \<Rightarrow> 'k::linorder option) \<Rightarrow> 'r list \<Rightarrow> ('k \<times> 'r list) list" where
  "groupby key df =
     map (\<lambda>k. (k, filter (\<lambda>r. key r = Some k) df)) (sort (remdups (List.map_filter key df)))"

definition nunique :: "'a list \<Rightarrow> nat" where
  "nunique xs = length (remdups xs)"

definition mean :: "int list \<Rightarrow> rat" where
  "mean xs = of_int (sum_list xs) / of_nat (length xs)"

section \<open>Quality filters\<close>

text \<open>
  \<^verbatim>\<open>check_consistent_cohort\<close>: the per-team \<^verbatim>\<open>count\<close> of the column
  \<^verbatim>\<open>active_users\<close>, which is the number of cells of the team that are not missing,
  then the teams whose count differs from the largest count.  The test for a missing
  cell belongs to the type of the column and is the parameter \<open>notna\<close>.  The builtin
  \<^verbatim>\<open>max\<close> raises ValueError on an empty series, which is the case exactly for a
  frame without rows.
\<close>

definition check_consistent_cohort ::
  "('u \<Rightarrow> bool) \<Rightarrow> ('u, 'a) activity_scheme list \<Rightarrow> error + int list" where
  "check_consistent_cohort notna df =
     (let cohort_chk = map (\<lambda>(t, rows). (t, length (filter notna (map active_users rows))))
                           (groupby (\<lambda>r. Some (team_id r)) df)
      in if cohort_chk = [] then Inl ValueError
         else let m = Max (set (map snd cohort_chk))
              in Inr (map fst (filter (\<lambda>(t, c). c \<noteq> m) cohort_chk)))"

text \<open>
  \<^verbatim>\<open>check_no_active_users\<close>: the per-team minimum and maximum of
  \<^verbatim>\<open>active_users\<close>, the column \<^verbatim>\<open>filter = max + max\<close> (a 64-bit addition), and
  the teams whose \<^verbatim>\<open>filter\<close> is 0.
\<close>

definition check_no_active_users :: "(int, 'a) activity_scheme list \<Rightarrow> int list" where
  "check_no_active_users df =
     (let dau_check = map (\<lambda>(t, rows). (t, Min (set (map active_users rows)),
                                            Max (set (map active_users rows))))
                          (groupby (\<lambda>r. Some (team_id r)) df);
          inactive_teams = filter (\<lambda>(t, mn, mx). int64 (mx + mx) = 0) dau_check
      in map fst inactive_teams)"

text \<open>
  \<^verbatim>\<open>check_missing_dates\<close>.  \<^verbatim>\<open>pd.to_datetime\<close> is a library function: it is a
  parameter \<open>to_datetime\<close>, which gives the day number of a date text, or \<open>None\<close> where
  the library raises.  \<^verbatim>\<open>min\<close> of an empty set raises ValueError.  The daily range
  from the first to the last day is \<open>[lo..hi]\<close>.
\<close>

definition check_missing_dates ::
  "(string \<Rightarrow> int option) \<Rightarrow> ('u, 'a) activity_scheme list \<Rightarrow> error + int list" where
  "check_missing_dates to_datetime df =
     (if None \<in> set (map (\<lambda>r. to_datetime (ds r)) df) then Inl ParserError
      else let dates = set (map (\<lambda>r. the (to_datetime (ds r))) df)
           in if dates = {} then Inl ValueError
              else let dt_rng = [Min dates..Max dates]
                   in Inr (filter (\<lambda>d. d \<notin> dates) dt_rng))"

section \<open>Loader\<close>

text \<open>
  \<^verbatim>\<open>str.replace(pat, repl)\<close>: the occurrences of \<open>pat\<close> are replaced from left to
  right, the search going on after each replaced occurrence.  With an empty pattern,
  Python puts \<open>repl\<close> before every character and at the end.
\<close>

function str_replace :: "string \<Rightarrow> string \<Rightarrow> string \<Rightarrow> string" where
  "str_replace pat repl s =
     (if pat = [] then repl @ concat (map (\<lambda>c. c # repl) s)
      else if s = [] then []
      else if prefix pat s then repl @ str_replace pat repl (drop (length pat) s)
      else hd s # str_replace pat repl (tl s))"
  by pat_completeness auto
termination
  by (relation "measure (\<lambda>(pat, repl, s). length s)") auto

text \<open>
  \<^verbatim>\<open>pd.merge(act, ind, how = 'left', on = 'industry_id')\<close>: every activity row, in
  order, once for each row of the map with its identifier, in map order; once with a
  missing name when the map has none.
\<close>

definition join_row :: "int activity \<Rightarrow> string option \<Rightarrow> int joined" where
  "join_row a nm =
     \<lparr>ds = ds a, team_id = team_id a, country = country a, industry_id = industry_id a,
      active_users = active_users a, messages_7d = messages_7d a, industry = nm\<rparr>"

definition merge_left :: "int activity list \<Rightarrow> industry_map \<Rightarrow> int joined list" where
  "merge_left act ind =
     concat (map (\<lambda>a. case filter (\<lambda>(i, nm). i = industry_id a) ind of
                         [] \<Rightarrow> [join_row a None]
                       | ms \<Rightarrow> map (\<lambda>(i, nm). join_row a nm) ms) act)"

definition read_data :: "int activity list \<Rightarrow> industry_map \<Rightarrow> int joined list" where
  "read_data act ind =
     (let ind = map (\<lambda>(i, nm). (i, map_option (str_replace ''Health Care'' ''Healthcare'') nm)) ind
      in merge_left act ind)"

section \<open>Aggregators\<close>

text \<open>
  The float columns are modelled in exact rational arithmetic: the rounding of the
  64-bit floats of pandas is left out.  A float division whose divisor can be zero gives
  a value of \<open>float64\<close>, which has the infinities and NaN of the hardware format: pandas
  divides columns without raising.
\<close>

definition true_divide :: "rat \<Rightarrow> rat \<Rightarrow> float64" where
  "true_divide a b =
     (if b \<noteq> 0 then Finite (a / b)
      else if 0 < a then PosInf else if a < 0 then NegInf else NaN)"

text \<open>
  \<^verbatim>\<open>sort_values(col, ascending = False)\<close> is modelled as a stable sort on the negated
  key.  (The default algorithm of pandas does not fix the order of rows with equal keys;
  no statement below depends on it.)
\<close>

record ind_users_row =
  iu_industry :: string
  iu_active_users :: int
  avg_daily_users :: rat

definition active_users_by_ind :: "(int, 'a) joined_scheme list \<Rightarrow> ind_users_row list" where
  "active_users_by_ind df =
     (let end_jul_df = filter (\<lambda>r. ds r \<ge> ''2020-07-25'') df;
          ind_users = map (\<lambda>(k, rows). (k, sum_int64 (map active_users rows)))
                          (groupby industry end_jul_df);
          ind_users = map (\<lambda>(k, s). \<lparr>iu_industry = k, iu_active_users = s,
                                      avg_daily_users = of_int s / 7\<rparr>) ind_users
      in sort_key (\<lambda>r. - iu_active_users r) ind_users)"

record cntry_row =
  c_country :: string
  countd_teams :: nat
  avg_team_sz :: rat
  teams_cnt_rank :: rat

text \<open>
  \<^verbatim>\<open>Series.rank(ascending = False)\<close> with the default method of pandas, the average:
  equal values share the mean of the positions they occupy in descending order.
\<close>

definition rank_desc :: "nat list \<Rightarrow> nat \<Rightarrow> rat" where
  "rank_desc vs v =
     of_nat (length (filter (\<lambda>x. v < x) vs)) + (of_nat (length (filter (\<lambda>x. x = v) vs)) + 1) / 2"

definition avg_team_sz_top_countries :: "(int, 'a) joined_scheme list \<Rightarrow> int \<Rightarrow> cntry_row list" where
  "avg_team_sz_top_countries df top_n =
     (let cntry_df = filter (\<lambda>r. ds r \<ge> ''2020-07-01'') df;
          cntry_summ = map (\<lambda>(c, rows). (c, nunique (map team_id rows),
                                            mean (map active_users rows)))
                           (groupby country cntry_df);
          counts = map (\<lambda>(c, n, m). n) cntry_summ;
          cntry_summ = map (\<lambda>(c, n, m). \<lparr>c_country = c, countd_teams = n, avg_team_sz = m,
                                          teams_cnt_rank = rank_desc counts n\<rparr>) cntry_summ;
          cntry_summ = sort_key teams_cnt_rank cntry_summ;
          cntry_summ = filter (\<lambda>r. teams_cnt_rank r \<le> of_int top_n) cntry_summ
      in sort_key (\<lambda>r. - avg_team_sz r) cntry_summ)"

record dly_row =
  dly_ds :: string
  dly_countd_teams :: nat
  total_active_users :: int
  avg_team_users :: rat
  total_msgs_mm :: rat
  msgs_per_user :: float64

definition daily_summary_figues :: "(int, 'a) joined_scheme list \<Rightarrow> dly_row list" where
  "daily_summary_figues df =
     map (\<lambda>(d, rows).
            let total = sum_int64 (map active_users rows);
                msgs_mm = of_int (sum_int64 (map messages_7d rows)) / 1000000
            in \<lparr>dly_ds = d, dly_countd_teams = nunique (map team_id rows),
                total_active_users = total, avg_team_users = mean (map active_users rows),
                total_msgs_mm = msgs_mm,
                msgs_per_user = true_divide (msgs_mm * 1000000) (of_int total)\<rparr>)
         (groupby (\<lambda>r. Some (ds r)) df)"

section \<open>Main script\<close>

text \<open>
  The script up to the charts, which only draw the three summaries.  The value is the
  frame handed to the aggregators together with what was computed from it, or the error
  that stops the script.
\<close>

record results =
  final_df :: "int joined list"
  final_missing_dts :: "int list"
  final_ind_users :: "ind_users_row list"
  final_cntry_summ :: "cntry_row list"
  final_dly_summ :: "dly_row list"

definition main ::
  "(string \<Rightarrow> int option) \<Rightarrow> int activity list \<Rightarrow> industry_map \<Rightarrow> error + results" where
  "main to_datetime act ind =
     (let df = read_data act ind;
          inactive_list = check_no_active_users df;
          df = filter (\<lambda>r. team_id r \<notin> set inactive_list) df
      in case check_consistent_cohort notna_int64 df of
           Inl e \<Rightarrow> Inl e
         | Inr cohort_chk \<Rightarrow>
             let df = filter (\<lambda>r. team_id r \<notin> set cohort_chk) df
             in case check_missing_dates to_datetime df of
                  Inl e \<Rightarrow> Inl e
                | Inr missing_dts \<Rightarrow>
                    Inr \<lparr>final_df = df, final_missing_dts = missing_dts,
                         final_ind_users = active_users_by_ind df,
                         final_cntry_summ = avg_team_sz_top_countries df 5,
                         final_dly_summ = daily_summary_figues df\<rparr>)"

section \<open>Notions used in the statements\<close>



text \<open>
  The number of rows of a team whose \<^verbatim>\<open>active_users\<close> cell is not missing, and the
  largest such number over the teams of a frame.
\<close>

definition cell_count :: "('u \<Rightarrow> bool) \<Rightarrow> ('u, 'a) activity_scheme list \<Rightarrow> int \<Rightarrow> nat" where
  "cell_count notna df t = length (filter (\<lambda>r. team_id r = t \<and> notna (active_users r)) df)"

definition max_cell_count :: "('u \<Rightarrow> bool) \<Rightarrow> ('u, 'a) activity_scheme list \<Rightarrow> nat" where
  "max_cell_count notna df = Max (set (map (\<lambda>r. cell_count notna df (team_id r)) df))"

text \<open>The largest \<^verbatim>\<open>active_users\<close> over the rows of a team.\<close>

definition team_max :: "(int, 'a) activity_scheme list \<Rightarrow> int \<Rightarrow> int" where
  "team_max df t = Max (set (map active_users (filter (\<lambda>r. team_id r = t) df)))"

text \<open>The rewriting of an industry name that \<^verbatim>\<open>read_data\<close> applies.\<close>

abbreviation canonical :: "string \<Rightarrow> string" where
  "canonical \<equiv> str_replace ''Health Care'' ''Healthcare''"



text \<open>The distinct team counts of the countries of the last month, in country order.\<close>

definition country_counts :: "(int, 'a) joined_scheme list \<Rightarrow> nat list" where
  "country_counts df =
     map (\<lambda>(c, rows). nunique (map team_id rows))
         (groupby country (filter (\<lambda>r. ''2020-07-01'' \<le> ds r) df))"

subsection \<open>A date reader\<close>

text \<open>
  A date reader for the examples: it reads texts of the form \<^verbatim>\<open>YYYY-MM-DD\<close> and gives
  the number of days since 1970-01-01.
\<close>

definition digit :: "char \<Rightarrow> int option" where
  "digit c = (if CHR ''0'' \<le> c \<and> c \<le> CHR ''9'' then Some (of_char c - 48) else None)"

fun number :: "int \<Rightarrow> string \<Rightarrow> int option" where
  "number acc [] = Some acc"
| "number acc (c # cs) = (case digit c of None \<Rightarrow> None | Some d \<Rightarrow> number (10 * acc + d) cs)"

definition days_from_civil :: "int \<Rightarrow> int \<Rightarrow> int \<Rightarrow> int" where
  "days_from_civil y m d =
     (let y = (if m \<le> 2 then y - 1 else y);
          era = y div 400;
          yoe = y - era * 400;
          doy = (153 * (if 2 < m then m - 3 else m + 9) + 2) div 5 + d - 1;
          doe = yoe * 365 + yoe div 4 - yoe div 100 + doy
      in era * 146097 + doe - 719468)"

definition iso_date :: "string \<Rightarrow> int option" where
  "iso_date s =
     (if length s = 10 \<and> s ! 4 = CHR ''-'' \<and> s ! 7 = CHR ''-'' then
        case (number 0 (take 4 s), number 0 (take 2 (drop 5 s)), number 0 (drop 8 s)) of
          (Some y, Some m, Some d) \<Rightarrow> Some (days_from_civil y m d)
        | _ \<Rightarrow> None
      else None)"

subsection \<open>Example frames\<close>

text \<open>The frames and industry maps on which the statements below are evaluated.\<close>

definition act_row :: "string \<Rightarrow> int \<Rightarrow> string \<Rightarrow> int \<Rightarrow> int \<Rightarrow> int \<Rightarrow> int activity" where
  "act_row d t c i a m =
     \<lparr>ds = d, team_id = t, country = Some c, industry_id = i, active_users = a, messages_7d = m\<rparr>"



definition inactive_example :: "int activity list" where
  "inactive_example =
     [act_row ''2020-07-25'' 7 ''US'' 10 0 0, act_row ''2020-07-25'' 8 ''US'' 10 0 3,
      act_row ''2020-07-26'' 7 ''US'' 10 0 0, act_row ''2020-07-26'' 8 ''US'' 10 2 3,
      act_row ''2020-07-27'' 7 ''US'' 10 0 0, act_row ''2020-07-28'' 7 ''US'' 10 0 0,
      act_row ''2020-07-29'' 7 ''US'' 10 0 0, act_row ''2020-07-30'' 7 ''US'' 10 0 0,
      act_row ''2020-07-31'' 7 ''US'' 10 0 0]"

definition gap_example :: "int activity list" where
  "gap_example =
     [act_row ''2020-03-11'' 1 ''US'' 10 3 40, act_row ''2020-03-12'' 1 ''US'' 10 3 40,
      act_row ''2020-03-14'' 1 ''US'' 10 3 40, act_row ''2020-03-15'' 1 ''US'' 10 3 40,
      act_row ''2020-03-12'' 2 ''US'' 10 5 60]"

definition join_example :: "int joined list" where
  "join_example =
     [join_row (act_row ''2020-07-24'' 1 ''US'' 10 90 400) (Some ''Retail''),
      join_row (act_row ''2020-07-25'' 1 ''US'' 10 3 40) (Some ''Retail''),
      join_row (act_row ''2020-07-26'' 2 ''US'' 11 14 50) (Some ''Healthcare''),
      join_row (act_row ''2020-07-27'' 3 ''DE'' 12 100 60) None,
      join_row (act_row ''2020-07-31'' 1 ''US'' 10 4 50) (Some ''Retail''),
      join_row (act_row ''2020-07-31'' 2 ''US'' 11 7 0) (Some ''Healthcare'')]"

definition activity_example :: "int activity list" where
  "activity_example =
     [act_row ''2020-07-30'' 1 ''US'' 10 3 40,
      act_row ''2020-07-30'' 2 ''DE'' 11 5 60,
      act_row ''2020-07-31'' 3 ''FR'' 12 8 90]"

definition industry_example :: industry_map where
  "industry_example = [(10, Some ''Retail''), (11, Some ''XHealth Care Co'')]"

definition healthcare_example :: industry_map where
  "healthcare_example = [(11, Some ''Health Care''), (10, Some ''Retail''), (11, Some ''Healthcare'')]"


definition pipeline_example :: "int activity list" where
  "pipeline_example =
     [act_row ''2020-07-29'' 1 ''US'' 10 3 40, act_row ''2020-07-29'' 2 ''US'' 11 0 0,
      act_row ''2020-07-29'' 3 ''DE'' 12 9 70,
      act_row ''2020-07-31'' 1 ''US'' 10 4 50, act_row ''2020-07-31'' 2 ''US'' 11 0 0]"

text \<open>Six countries with one team each in July 2020.\<close>

definition tied_example :: "int joined list" where
  "tied_example =
     [join_row (act_row ''2020-07-01'' 1 ''AR'' 10 6 60) (Some ''Retail''),
      join_row (act_row ''2020-07-01'' 2 ''BR'' 10 5 50) (Some ''Retail''),
      join_row (act_row ''2020-07-01'' 3 ''CA'' 10 4 40) (Some ''Retail''),
      join_row (act_row ''2020-07-01'' 4 ''DE'' 10 3 30) (Some ''Retail''),
      join_row (act_row ''2020-07-01'' 5 ''ES'' 10 2 20) (Some ''Retail''),
      join_row (act_row ''2020-07-01'' 6 ''FR'' 10 1 10) (Some ''Retail'')]"

section \<open>Properties\<close>

subsection \<open>Grouping\<close>

lemma set_map_filter_key: "set (List.map_filter key df) = {k. \<exists>r \<in> set df. key r = Some k}"
  by (induction df) (auto simp: List.map_filter_simps split: option.splits)

lemma groupby_keys: "map fst (groupby key df) = sort (remdups (List.map_filter key df))"
  by (simp add: groupby_def comp_def)

lemma groupby_keys_set: "fst ` set (groupby key df) = {k. \<exists>r \<in> set df. key r = Some k}"
proof -
  have "fst ` set (groupby key df) = set (map fst (groupby key df))" by simp
  also have "\<dots> = set (List.map_filter key df)" by (simp only: groupby_keys set_sort set_remdups)
  finally show ?thesis by (simp add: set_map_filter_key)
qed

lemma groupby_distinct: "distinct (map fst (groupby key df))"
  by (simp only: groupby_keys distinct_sort distinct_remdups)

lemma groupby_sorted: "sorted (map fst (groupby key df))"
  by (simp only: groupby_keys sorted_sort)

lemma groupby_mem:
  "(k, rows) \<in> set (groupby key df) \<longleftrightarrow>
     (\<exists>r \<in> set df. key r = Some k) \<and> rows = filter (\<lambda>r. key r = Some k) df"
  by (auto simp: groupby_def set_map_filter_key)

lemma groupby_rows_nonempty: "(k, rows) \<in> set (groupby key df) \<Longrightarrow> rows \<noteq> []"
  by (auto simp: groupby_mem filter_empty_conv)

lemma groupby_empty_iff: "groupby key df = [] \<longleftrightarrow> (\<forall>r \<in> set df. key r = None)"
proof -
  have "groupby key df = [] \<longleftrightarrow> fst ` set (groupby key df) = {}" by simp
  also have "\<dots> \<longleftrightarrow> (\<forall>r \<in> set df. key r = None)"
    unfolding groupby_keys_set by (simp add: set_eq_iff) (metis not_Some_eq)
  finally show ?thesis .
qed

subsection \<open>The cohort filter\<close>

lemma team_keys: "set (map fst (groupby (\<lambda>r. Some (team_id r)) df)) = team_id ` set df"
  using groupby_keys_set[of "\<lambda>r. Some (team_id r)" df] by auto

lemma cohort_counts:
  "map (\<lambda>(t, rows). (t, length (filter notna (map active_users rows))))
       (groupby (\<lambda>r. Some (team_id r)) df)
   = map (\<lambda>t. (t, cell_count notna df t)) (map fst (groupby (\<lambda>r. Some (team_id r)) df))"
proof -
  have "length (filter notna (map active_users (filter (\<lambda>r. team_id r = t) df)))
          = cell_count notna df t" for t
    unfolding cell_count_def by (induction df) auto
  then show ?thesis by (simp add: groupby_def comp_def)
qed

lemma cohort_max:
  assumes "df \<noteq> []"
  shows "Max (set (map snd (map (\<lambda>t. (t, cell_count notna df t))
                 (map fst (groupby (\<lambda>r. Some (team_id r)) df)))))
         = max_cell_count notna df"
proof -
  have "set (map snd (map (\<lambda>t. (t, cell_count notna df t))
              (map fst (groupby (\<lambda>r. Some (team_id r)) df))))
        = cell_count notna df ` set (map fst (groupby (\<lambda>r. Some (team_id r)) df))"
    by (simp add: image_image comp_def)
  also have "\<dots> = cell_count notna df ` (team_id ` set df)"
    by (simp only: team_keys)
  also have "\<dots> = set (map (\<lambda>r. cell_count notna df (team_id r)) df)"
    by (simp add: image_image)
  finally show ?thesis by (simp add: max_cell_count_def)
qed



lemma check_consistent_cohort_eq:
  assumes "df \<noteq> []"
  shows "check_consistent_cohort notna df =
           Inr (filter (\<lambda>t. cell_count notna df t \<noteq> max_cell_count notna df)
                       (map fst (groupby (\<lambda>r. Some (team_id r)) df)))"
proof -
  have gne: "groupby (\<lambda>r. Some (team_id r)) df \<noteq> []"
    using assms by (auto simp: groupby_empty_iff)
  show ?thesis
    unfolding check_consistent_cohort_def cohort_counts Let_def
    using gne by (simp add: cohort_max[OF assms, simplified] filter_map comp_def)
qed

lemma max_cell_count_attained:
  assumes "df \<noteq> []"
  shows "\<exists>r \<in> set df. cell_count notna df (team_id r) = max_cell_count notna df"
proof -
  let ?S = "set (map (\<lambda>r. cell_count notna df (team_id r)) df)"
  from assms have "?S \<noteq> {}" by simp
  then have "Max ?S \<in> ?S" by (intro Max_in) auto
  then show ?thesis unfolding max_cell_count_def by auto
qed






subsection \<open>The zero-active-users filter\<close>

lemma int64_double_zero:
  assumes "0 \<le> m" "is_int64 m"
  shows "int64 (m + m) = 0 \<longleftrightarrow> m = 0"
proof (cases "m + m < 2 ^ 63")
  case True
  with assms have "(m + m + 2 ^ 63) mod 2 ^ 64 = m + m + 2 ^ 63"
    by (intro mod_pos_pos_trivial) auto
  then show ?thesis by (simp add: int64_def)
next
  case False
  with assms have "(m + m + 2 ^ 63) mod 2 ^ 64 = m + m + 2 ^ 63 - 2 ^ 64"
    by (intro int_mod_pos_eq[where q = 1]) (auto simp: is_int64_def)
  with assms False show ?thesis by (auto simp: int64_def is_int64_def)
qed

lemma check_no_active_users_eq:
  "check_no_active_users df =
     filter (\<lambda>t. int64 (team_max df t + team_max df t) = 0)
            (map fst (groupby (\<lambda>r. Some (team_id r)) df))"
  by (simp add: check_no_active_users_def groupby_def team_max_def filter_map comp_def)

lemma team_max_range:
  assumes "\<forall>r \<in> set df. 0 \<le> active_users r \<and> is_int64 (active_users r)" "t \<in> team_id ` set df"
  shows "0 \<le> team_max df t \<and> is_int64 (team_max df t)"
proof -
  let ?S = "set (map active_users (filter (\<lambda>r. team_id r = t) df))"
  from assms(2) have ne: "?S \<noteq> {}" by (auto simp: filter_empty_conv)
  have "Max ?S \<in> ?S" using ne by (intro Max_in) auto
  then obtain r where "r \<in> set df" "active_users r = Max ?S" by auto
  with assms(1) show ?thesis unfolding team_max_def by metis
qed

lemma team_max_zero:
  assumes "t \<in> team_id ` set df" "\<forall>r \<in> set df. team_id r = t \<longrightarrow> active_users r = 0"
  shows "team_max df t = 0"
proof -
  let ?S = "set (map active_users (filter (\<lambda>r. team_id r = t) df))"
  from assms have "?S = {0}" by auto
  then show ?thesis by (simp add: team_max_def del: set_map set_filter)
qed

text \<open>
Claim C2.  When every \<^verbatim>\<open>active_users\<close> value is a non-negative 64-bit integer,
  \<^verbatim>\<open>check_no_active_users\<close> returns a team exactly when it is a team of the frame
  and the largest \<^verbatim>\<open>active_users\<close> over its rows is 0.  In particular a team whose
  \<^verbatim>\<open>active_users\<close> are all 0 is returned, and none of its rows is left once the
  caller has dropped the rows of the returned teams.
\<close>

theorem check_no_active_users_iff:
  assumes "\<forall>r \<in> set df. 0 \<le> active_users r \<and> is_int64 (active_users r)"
  shows "(\<forall>t. t \<in> set (check_no_active_users df) \<longleftrightarrow>
              t \<in> team_id ` set df \<and> team_max df t = 0) \<and>
         (\<forall>t \<in> team_id ` set df.
              (\<forall>r \<in> set df. team_id r = t \<longrightarrow> active_users r = 0) \<longrightarrow>
              t \<in> set (check_no_active_users df) \<and>
              t \<notin> team_id ` set (filter (\<lambda>r. team_id r \<notin> set (check_no_active_users df)) df))"
proof -
  have iff: "t \<in> set (check_no_active_users df) \<longleftrightarrow> t \<in> team_id ` set df \<and> team_max df t = 0"
    for t
  proof (cases "t \<in> team_id ` set df")
    case True
    from team_max_range[OF assms True] have "int64 (team_max df t + team_max df t) = 0 \<longleftrightarrow> team_max df t = 0"
      by (intro int64_double_zero) auto
    with True show ?thesis
      unfolding check_no_active_users_eq set_filter team_keys by simp
  next
    case False
    then show ?thesis
      unfolding check_no_active_users_eq set_filter team_keys by simp
  qed
  have zero: "t \<in> set (check_no_active_users df) \<and>
              t \<notin> team_id ` set (filter (\<lambda>r. team_id r \<notin> set (check_no_active_users df)) df)"
    if "t \<in> team_id ` set df" "\<forall>r \<in> set df. team_id r = t \<longrightarrow> active_users r = 0" for t
  proof -
    from team_max_zero[OF that] that(1) have "t \<in> set (check_no_active_users df)"
      by (simp add: iff)
    then show ?thesis by auto
  qed
  from iff zero show ?thesis by blast
qed

theorem check_no_active_users_iff_witness:
  "check_no_active_users inactive_example = [7] \<and> team_max inactive_example 7 = 0 \<and>
   team_max inactive_example 8 = 2 \<and>
   map team_id (filter (\<lambda>r. team_id r \<notin> set (check_no_active_users inactive_example))
                       inactive_example) = [8, 8]"
proof -
  have rng: "\<forall>r \<in> set inactive_example. 0 \<le> active_users r \<and> is_int64 (active_users r)"
    by (simp add: inactive_example_def act_row_def is_int64_def)
  have t7: "7 \<in> team_id ` set inactive_example"
    by (simp add: inactive_example_def act_row_def)
  have z7: "\<forall>r \<in> set inactive_example. team_id r = 7 \<longrightarrow> active_users r = 0"
    by (simp add: inactive_example_def act_row_def)
  have m8: "team_max inactive_example 8 = 2" by code_simp
  have ev: "check_no_active_users inactive_example = [7]" by code_simp
  from check_no_active_users_iff [OF rng] t7 z7
  have in7: "7 \<in> set (check_no_active_users inactive_example)" by blast
  from check_no_active_users_iff [OF rng] in7
  have m7: "team_max inactive_example 7 = 0" by blast
  have flt: "map team_id (filter (\<lambda>r. team_id r \<notin> set (check_no_active_users inactive_example))
                       inactive_example) = [8, 8]"
    unfolding ev by (simp add: inactive_example_def act_row_def)
  from ev m7 m8 flt show ?thesis by simp
qed

subsection \<open>The missing-dates check\<close>

lemma filter_eq_upto:
  assumes "a \<le> m" "m \<le> b"
  shows "filter (\<lambda>d. d = m) [a..b] = [m]"
proof -
  have "[a..b] = [a..m - 1] @ m # [m + 1..b]"
    using assms by (rule upto_split3)
  moreover have "filter (\<lambda>d. d = m) [a..m - 1] = []" by (auto simp: filter_empty_conv)
  moreover have "filter (\<lambda>d. d = m) [m + 1..b] = []" by (auto simp: filter_empty_conv)
  ultimately show ?thesis by simp
qed

text \<open>
Claim C5.  When every date of the frame is read, and the days read are a daily range
  from \<open>a\<close> to \<open>b\<close> with the one interior day \<open>m\<close> taken out, \<^verbatim>\<open>check_missing_dates\<close>
  returns the list with the single day \<open>m\<close>.
\<close>

theorem check_missing_dates_one_gap:
  assumes parse: "None \<notin> set (map (\<lambda>r. to_datetime (ds r)) df)"
    and dates: "set (map (\<lambda>r. the (to_datetime (ds r))) df) = {a..b} - {m}"
    and gap: "a < m" "m < b"
  shows "check_missing_dates to_datetime df = Inr [m]"
proof -
  let ?dates = "{a..b} - {m}"
  have fin: "finite ?dates" by simp
  have "a \<in> ?dates" using gap by simp
  then have ne: "?dates \<noteq> {}" by blast
  have lo: "Min ?dates = a" using gap by (intro Min_eqI) auto
  have hi: "Max ?dates = b" using gap by (intro Max_eqI) auto
  have "filter (\<lambda>d. d \<notin> ?dates) [a..b] = filter (\<lambda>d. d = m) [a..b]"
    by (rule filter_cong) auto
  also have "\<dots> = [m]" using gap by (intro filter_eq_upto) auto
  finally have flt: "filter (\<lambda>d. d \<notin> ?dates) [a..b] = [m]" .
  show ?thesis
    unfolding check_missing_dates_def Let_def dates using parse ne lo hi flt by simp
qed

theorem check_missing_dates_one_gap_witness:
  "check_missing_dates iso_date gap_example = Inr [18334] \<and> iso_date ''2020-03-13'' = Some 18334"
proof -
  have parse: "None \<notin> set (map (\<lambda>r. iso_date (ds r)) gap_example)"
    by code_simp
  have dates: "set (map (\<lambda>r. the (iso_date (ds r))) gap_example) = {18332..18336} - {18334}"
    by code_simp
  have day: "iso_date ''2020-03-13'' = Some 18334" by code_simp
  from check_missing_dates_one_gap [OF parse dates] day show ?thesis by simp
qed

subsection \<open>64-bit sums\<close>

lemma sum_int64_fold: "fold (\<lambda>x acc. int64 (acc + x)) xs a = int64 (a + sum_list xs)" if "int64 a = a"
  using that
proof (induction xs arbitrary: a)
  case Nil
  then show ?case by simp
next
  case (Cons x xs)
  have idem: "int64 (int64 (a + x)) = int64 (a + x)"
    by (simp add: int64_def) 
  have "fold (\<lambda>x acc. int64 (acc + x)) (x # xs) a = int64 (int64 (a + x) + sum_list xs)"
    using Cons.IH[OF idem] by simp
  also have "\<dots> = int64 (a + sum_list (x # xs))"
    by (simp add: int64_def mod_simps algebra_simps)
  finally show ?case .
qed

lemma sum_int64_eq: "sum_int64 xs = int64 (sum_list xs)"
  unfolding sum_int64_def by (subst sum_int64_fold) (simp_all add: int64_def)

lemma int64_id: "is_int64 x \<Longrightarrow> int64 x = x"
  by (simp add: int64_def is_int64_def)

subsection \<open>Active users by industry\<close>

lemma map_filter_filter_Some:
  "List.map_filter key (filter (\<lambda>r. key r \<noteq> None) df) = List.map_filter key df"
  by (induction df) (auto simp: List.map_filter_simps split: option.splits)

lemma groupby_drops_missing: "groupby key (filter (\<lambda>r. key r \<noteq> None) df) = groupby key df"
proof -
  have "filter (\<lambda>r. key r = Some k) (filter (\<lambda>r. key r \<noteq> None) df)
        = filter (\<lambda>r. key r = Some k) df" for k
    by (induction df) auto
  then show ?thesis unfolding groupby_def map_filter_filter_Some by (simp only:)
qed

lemma distinct_map_insort_key:
  "distinct (map g (insort_key f x xs)) \<longleftrightarrow> g x \<notin> g ` set xs \<and> distinct (map g xs)"
  by (induction xs) (auto simp: set_insort_key)

lemma distinct_map_sort_key: "distinct (map g (sort_key f xs)) = distinct (map g xs)"
  by (induction xs) (simp_all add: distinct_map_insort_key)

lemma sorted_desc_sort_key:
  fixes f :: "'a \<Rightarrow> 'b::{linordered_idom}"
  shows "sorted_wrt (\<lambda>x y. y \<le> x) (map f (sort_key (\<lambda>r. - f r) xs))"
proof -
  have "sorted (map (\<lambda>r. - f r) (sort_key (\<lambda>r. - f r) xs))" by (rule sorted_sort_key)
  then show ?thesis by (simp add: sorted_wrt_map sorted_map)
qed

lemma active_users_by_ind_eq:
  "active_users_by_ind df =
     sort_key (\<lambda>r. - iu_active_users r)
       (map (\<lambda>(k, s). \<lparr>iu_industry = k, iu_active_users = s, avg_daily_users = of_int s / 7\<rparr>)
         (map (\<lambda>(k, rows). (k, sum_int64 (map active_users rows)))
           (groupby industry (filter (\<lambda>r. ''2020-07-25'' \<le> ds r) df))))"
  unfolding active_users_by_ind_def Let_def ..

lemma active_users_by_ind_rows:
  "set (active_users_by_ind df) =
     (\<lambda>k. \<lparr>iu_industry = k,
            iu_active_users = sum_int64 (map active_users
               (filter (\<lambda>r. industry r = Some k) (filter (\<lambda>r. ''2020-07-25'' \<le> ds r) df))),
            avg_daily_users = of_int (sum_int64 (map active_users
               (filter (\<lambda>r. industry r = Some k) (filter (\<lambda>r. ''2020-07-25'' \<le> ds r) df)))) / 7\<rparr>)
     ` {k. \<exists>r \<in> set df. ''2020-07-25'' \<le> ds r \<and> industry r = Some k}"
proof -
  have keys: "set (List.map_filter industry (filter (\<lambda>r. ''2020-07-25'' \<le> ds r) df))
              = {k. \<exists>r \<in> set df. ''2020-07-25'' \<le> ds r \<and> industry r = Some k}"
    by (auto simp: set_map_filter_key)
  show ?thesis
    unfolding keys[symmetric]
    by (simp add: active_users_by_ind_def groupby_def comp_def image_image)
qed

text \<open>
Claim C3.  In every row of the output of \<^verbatim>\<open>active_users_by_ind\<close> the column
  \<^verbatim>\<open>avg_daily_users\<close> is \<^verbatim>\<open>active_users\<close> divided by 7, and the output rows are in
  descending order of \<^verbatim>\<open>active_users\<close>.
\<close>

theorem active_users_by_ind_sorted:
  "(\<forall>row \<in> set (active_users_by_ind df).
       avg_daily_users row = of_int (iu_active_users row) / 7) \<and>
   sorted_wrt (\<lambda>x y. y \<le> x) (map iu_active_users (active_users_by_ind df))"
proof
  show "\<forall>row \<in> set (active_users_by_ind df). avg_daily_users row = of_int (iu_active_users row) / 7"
    unfolding active_users_by_ind_rows by auto
  show "sorted_wrt (\<lambda>x y. y \<le> x) (map iu_active_users (active_users_by_ind df))"
    unfolding active_users_by_ind_def Let_def by (rule sorted_desc_sort_key)
qed

theorem active_users_by_ind_sorted_witness:
  "active_users_by_ind join_example =
     [\<lparr>iu_industry = ''Healthcare'', iu_active_users = 21, avg_daily_users = 3\<rparr>,
      \<lparr>iu_industry = ''Retail'', iu_active_users = 7, avg_daily_users = 1\<rparr>] \<and>
   sorted_wrt (\<lambda>x y. y \<le> x) (map iu_active_users (active_users_by_ind join_example)) \<and>
   avg_daily_users (hd (active_users_by_ind join_example))
     = of_int (iu_active_users (hd (active_users_by_ind join_example))) / 7"
proof -
  have ev: "active_users_by_ind join_example =
     [\<lparr>iu_industry = ''Healthcare'', iu_active_users = 21, avg_daily_users = 3\<rparr>,
      \<lparr>iu_industry = ''Retail'', iu_active_users = 7, avg_daily_users = 1\<rparr>]"
    by code_simp
  then have mem: "hd (active_users_by_ind join_example) \<in> set (active_users_by_ind join_example)"
    by simp
  from active_users_by_ind_sorted [of join_example] mem
  have "sorted_wrt (\<lambda>x y. y \<le> x) (map iu_active_users (active_users_by_ind join_example)) \<and>
        avg_daily_users (hd (active_users_by_ind join_example))
          = of_int (iu_active_users (hd (active_users_by_ind join_example))) / 7"
    by blast
  with ev show ?thesis by blast
qed

text \<open>
Claim C10.  Rows with a missing industry name do not reach the output of
  \<^verbatim>\<open>active_users_by_ind\<close>: the output is that of the frame without these rows; the
  sum of every output row is taken over the rows of the last week that carry the name
  of that row; and the names of the output are, each once, the names present in the
  last week, so that no output row stands for the rows without a name.
\<close>

theorem active_users_by_ind_skips_missing:
  "active_users_by_ind df = active_users_by_ind (filter (\<lambda>r. industry r \<noteq> None) df) \<and>
   (\<forall>row \<in> set (active_users_by_ind df).
       iu_active_users row =
         int64 (sum_list (map active_users
           (filter (\<lambda>r. ''2020-07-25'' \<le> ds r \<and> industry r = Some (iu_industry row)) df)))) \<and>
   set (map iu_industry (active_users_by_ind df))
     = {k. \<exists>r \<in> set df. ''2020-07-25'' \<le> ds r \<and> industry r = Some k} \<and>
   distinct (map iu_industry (active_users_by_ind df))"
proof (intro conjI)
  let ?W = "\<lambda>df. filter (\<lambda>r. ''2020-07-25'' \<le> ds r) df"
  have "?W (filter (\<lambda>r. industry r \<noteq> None) df) = filter (\<lambda>r. industry r \<noteq> None) (?W df)"
    by (induction df) auto
  then have "groupby industry (?W (filter (\<lambda>r. industry r \<noteq> None) df)) = groupby industry (?W df)"
    by (simp only: groupby_drops_missing)
  then show "active_users_by_ind df = active_users_by_ind (filter (\<lambda>r. industry r \<noteq> None) df)"
    by (simp only: active_users_by_ind_eq)
  show "\<forall>row \<in> set (active_users_by_ind df).
       iu_active_users row =
         int64 (sum_list (map active_users
           (filter (\<lambda>r. ''2020-07-25'' \<le> ds r \<and> industry r = Some (iu_industry row)) df)))"
    unfolding active_users_by_ind_rows by (auto simp: sum_int64_eq conj_commute)
  show "set (map iu_industry (active_users_by_ind df))
     = {k. \<exists>r \<in> set df. ''2020-07-25'' \<le> ds r \<and> industry r = Some k}"
    unfolding set_map active_users_by_ind_rows by (simp add: image_image)
  have "distinct (map iu_industry (active_users_by_ind df)) \<longleftrightarrow>
        distinct (map fst (groupby industry (?W df)))"
    unfolding active_users_by_ind_eq
    by (subst distinct_map_sort_key) (simp add: comp_def case_prod_beta)
  then show "distinct (map iu_industry (active_users_by_ind df))"
    by (simp only: groupby_distinct)
qed

theorem active_users_by_ind_skips_missing_witness:
  "active_users_by_ind join_example
     = active_users_by_ind (filter (\<lambda>r. industry r \<noteq> None) join_example) \<and>
   map iu_industry (active_users_by_ind join_example) = [''Healthcare'', ''Retail''] \<and>
   map iu_active_users (active_users_by_ind join_example) = [21, 7] \<and>
   map active_users (filter (\<lambda>r. ''2020-07-25'' \<le> ds r \<and> industry r = None) join_example)
     = [100]"
proof -
  have names: "map iu_industry (active_users_by_ind join_example) = [''Healthcare'', ''Retail'']"
    by code_simp
  have sums: "map iu_active_users (active_users_by_ind join_example) = [21, 7]"
    by code_simp
  have missing: "map active_users
      (filter (\<lambda>r. ''2020-07-25'' \<le> ds r \<and> industry r = None) join_example) = [100]"
    by code_simp
  from active_users_by_ind_skips_missing [of join_example]
  have "active_users_by_ind join_example
          = active_users_by_ind (filter (\<lambda>r. industry r \<noteq> None) join_example)"
    by blast
  with names sums missing show ?thesis by blast
qed

subsection \<open>The rewriting of industry names\<close>

declare str_replace.simps [simp del]

lemma canonical_Nil: "canonical [] = []"
  by (simp add: str_replace.simps)

lemma canonical_match: "canonical (''Health Care'' @ t) = ''Healthcare'' @ canonical t"
  by (subst str_replace.simps) simp

lemma canonical_nomatch:
  assumes "\<not> prefix ''Health Care'' (c # s)"
  shows "canonical (c # s) = c # canonical s"
proof -
  have "canonical (c # s) =
          (if prefix ''Health Care'' (c # s)
           then ''Healthcare'' @ canonical (drop (length ''Health Care'') (c # s))
           else c # canonical s)"
    by (subst str_replace.simps) (simp only: list.distinct if_False list.sel)
  with assms show ?thesis by (simp only: if_False)
qed

lemma canonical_other: "c \<noteq> CHR ''H'' \<Longrightarrow> canonical (c # s) = c # canonical s"
  by (rule canonical_nomatch) auto

lemma canonical_word: "CHR ''H'' \<notin> set w \<Longrightarrow> canonical (w @ x) = w @ canonical x"
  by (induction w) (auto simp: canonical_other)

lemma canonical_Healthcare: "canonical (''Healthcare'' @ x) = ''Healthcare'' @ canonical x"
proof -
  have "canonical (''Healthcare'' @ x) = CHR ''H'' # canonical (''ealthcare'' @ x)"
    using canonical_nomatch[of "CHR ''H''" "''ealthcare'' @ x"] by simp
  also have "canonical (''ealthcare'' @ x) = ''ealthcare'' @ canonical x"
    by (rule canonical_word) simp
  finally show ?thesis by simp
qed

lemma canonical_head:
  assumes "canonical s = c # t" "c \<noteq> CHR ''H''"
  shows "\<exists>s'. s = c # s' \<and> t = canonical s'"
proof (cases s)
  case Nil
  with assms show ?thesis by (simp add: canonical_Nil)
next
  case (Cons d s')
  show ?thesis
  proof (cases "prefix ''Health Care'' s")
    case True
    then obtain u where "s = ''Health Care'' @ u" by (auto simp: prefix_def)
    with assms(1) have "''Healthcare'' @ canonical u = c # t" by (simp only: canonical_match)
    with assms(2) show ?thesis by simp
  next
    case False
    with Cons assms show ?thesis by (simp add: canonical_nomatch)
  qed
qed

lemma canonical_word_inv:
  "CHR ''H'' \<notin> set w \<Longrightarrow> canonical s = w @ t \<Longrightarrow> \<exists>s'. s = w @ s' \<and> t = canonical s'"
proof (induction w arbitrary: s)
  case Nil
  then show ?case by simp
next
  case (Cons c w)
  from Cons.prems have "canonical s = c # (w @ t)" "c \<noteq> CHR ''H''" by auto
  from canonical_head[OF this] obtain s1 where s1: "s = c # s1" "w @ t = canonical s1" by blast
  from Cons.IH[of s1] Cons.prems(1) s1(2) obtain s' where "s1 = w @ s'" "t = canonical s'"
    by auto
  with s1 show ?case by simp
qed

lemma canonical_idem: "canonical (canonical s) = canonical s"
proof (induction s rule: length_induct)
  case (1 s)
  show ?case
  proof (cases s)
    case Nil
    then show ?thesis by (simp add: canonical_Nil)
  next
    case (Cons c s')
    show ?thesis
    proof (cases "prefix ''Health Care'' s")
      case True
      then obtain u where u: "s = ''Health Care'' @ u" by (auto simp: prefix_def)
      then have eq: "canonical s = ''Healthcare'' @ canonical u"
        by (simp only: canonical_match)
      have "length u < length s" using u by simp
      with 1 have "canonical (canonical u) = canonical u" by blast
      then show ?thesis unfolding eq canonical_Healthcare by simp
    next
      case False
      with Cons have eq: "canonical s = c # canonical s'"
        by (simp add: canonical_nomatch)
      have ih: "canonical (canonical s') = canonical s'" using 1 Cons by simp
      have "\<not> prefix ''Health Care'' (c # canonical s')"
      proof
        assume "prefix ''Health Care'' (c # canonical s')"
        then obtain t where t: "c # canonical s' = ''Health Care'' @ t" by (auto simp: prefix_def)
        then have c: "c = CHR ''H''" and "canonical s' = ''ealth Care'' @ t" by auto
        from canonical_word_inv[OF _ this(2)] obtain s'' where "s' = ''ealth Care'' @ s''"
          by auto
        with c Cons have "prefix ''Health Care'' s" by simp
        with False show False by simp
      qed
      then have "canonical (c # canonical s') = c # canonical (canonical s')"
        by (rule canonical_nomatch)
      with ih eq show ?thesis by simp
    qed
  qed
qed

lemma canonical_Health_Care: "canonical ''Health Care'' = ''Healthcare''"
  using canonical_match[of "[]"] by (simp add: canonical_Nil)

lemma canonical_Healthcare_fix: "canonical ''Healthcare'' = ''Healthcare''"
  using canonical_Healthcare[of "[]"] by (simp add: canonical_Nil)

subsection \<open>The left join of the loader\<close>

lemma truncate_join_row: "activity.truncate (join_row a nm) = a"
  by (simp add: join_row_def activity.truncate_def)

lemma industry_join_row: "industry (join_row a nm) = nm"
  by (simp add: join_row_def)

lemma industry_id_join_row: "industry_id (join_row a nm) = industry_id a"
  by (simp add: join_row_def)

lemma merge_left_unique:
  assumes "\<forall>a \<in> set act. length (filter (\<lambda>(i, nm). i = industry_id a) ind) \<le> 1"
  shows "merge_left act ind =
           map (\<lambda>a. join_row a (case filter (\<lambda>(i, nm). i = industry_id a) ind of
                                   [] \<Rightarrow> None | (i, nm) # ms \<Rightarrow> nm)) act"
  using assms
proof (induction act)
  case Nil
  then show ?case by (simp add: merge_left_def)
next
  case (Cons a act)
  then have ih: "merge_left act ind =
           map (\<lambda>a. join_row a (case filter (\<lambda>(i, nm). i = industry_id a) ind of
                                   [] \<Rightarrow> None | (i, nm) # ms \<Rightarrow> nm)) act"
    by simp
  from Cons.prems have le: "length (filter (\<lambda>(i, nm). i = industry_id a) ind) \<le> 1" by simp
  have "(case filter (\<lambda>(i, nm). i = industry_id a) ind of
           [] \<Rightarrow> [join_row a None] | ms \<Rightarrow> map (\<lambda>(i, nm). join_row a nm) ms)
        = [join_row a (case filter (\<lambda>(i, nm). i = industry_id a) ind of
                                   [] \<Rightarrow> None | (i, nm) # ms \<Rightarrow> nm)]"
    using le by (cases "filter (\<lambda>(i, nm). i = industry_id a) ind") (auto split: list.splits)
  moreover have "merge_left (a # act) ind =
      (case filter (\<lambda>(i, nm). i = industry_id a) ind of
           [] \<Rightarrow> [join_row a None] | ms \<Rightarrow> map (\<lambda>(i, nm). join_row a nm) ms) @ merge_left act ind"
    by (simp add: merge_left_def)
  ultimately show ?case using ih by simp
qed

lemma set_merge_left:
  "set (merge_left act ind) =
     {join_row a nm | a nm. a \<in> set act \<and>
        ((industry_id a, nm) \<in> set ind \<or> nm = None \<and> industry_id a \<notin> fst ` set ind)}"
  (is "?L = ?R")
proof -
  have one: "set (case filter (\<lambda>(i, nm). i = industry_id a) ind of
           [] \<Rightarrow> [join_row a None] | ms \<Rightarrow> map (\<lambda>(i, nm). join_row a nm) ms)
        = {join_row a nm | nm. (industry_id a, nm) \<in> set ind \<or> nm = None \<and> industry_id a \<notin> fst ` set ind}"
    (is "set ?c = ?S") for a
  proof (cases "filter (\<lambda>(i, nm). i = industry_id a) ind")
    case Nil
    then have "industry_id a \<notin> fst ` set ind" by (auto simp: filter_empty_conv)
    then have "?S = {join_row a None}" by (auto simp: image_iff)
    with Nil show ?thesis by simp
  next
    case (Cons m ms)
    then have "m \<in> set (filter (\<lambda>(i, nm). i = industry_id a) ind)" by simp
    then have "industry_id a \<in> fst ` set ind" by force
    then have S: "?S = {join_row a nm | nm. (industry_id a, nm) \<in> set ind}" by auto
    have "set ?c = (\<lambda>(i, nm). join_row a nm) ` set (filter (\<lambda>(i, nm). i = industry_id a) ind)"
      using Cons by simp
    also have "\<dots> = {join_row a nm | nm. (industry_id a, nm) \<in> set ind}"
      by (auto simp: image_iff)
    finally show ?thesis using S by simp
  qed
  have "?L = (\<Union>a \<in> set act. set (case filter (\<lambda>(i, nm). i = industry_id a) ind of
           [] \<Rightarrow> [join_row a None] | ms \<Rightarrow> map (\<lambda>(i, nm). join_row a nm) ms))"
    by (simp add: merge_left_def)
  also have "\<dots> = ?R" unfolding one by auto
  finally show ?thesis .
qed

lemma matches_canonical:
  "filter (\<lambda>(i, nm). i = k) (map (\<lambda>(i, nm). (i, map_option canonical nm)) ind)
     = map (\<lambda>(i, nm). (i, map_option canonical nm)) (filter (\<lambda>(i, nm). i = k) ind)"
  by (induction ind) auto

lemma fst_canonical: "fst ` set (map (\<lambda>(i, nm). (i, map_option canonical nm)) ind) = fst ` set ind"
  by force

text \<open>
Claim C6.  When every industry identifier of the activity rows has at most one row
  in the industry map, the joined frame of \<^verbatim>\<open>read_data\<close> has the activity rows, each
  once, in order and with all their columns; and a row whose identifier is not in the
  map has a missing industry name.
\<close>

theorem read_data_left_join:
  assumes "\<forall>a \<in> set act. length (filter (\<lambda>(i, nm). i = industry_id a) ind) \<le> 1"
  shows "map activity.truncate (read_data act ind) = act \<and>
         (\<forall>j < length act. industry_id (act ! j) \<notin> fst ` set ind \<longrightarrow>
              industry (read_data act ind ! j) = None)"
proof -
  let ?ind = "map (\<lambda>(i, nm). (i, map_option canonical nm)) ind"
  let ?name = "\<lambda>a. case filter (\<lambda>(i, nm). i = industry_id a) ?ind of
                       [] \<Rightarrow> None | (i, nm) # ms \<Rightarrow> nm"
  have "\<forall>a \<in> set act. length (filter (\<lambda>(i, nm). i = industry_id a) ?ind) \<le> 1"
    using assms by (simp add: matches_canonical)
  then have eq: "read_data act ind = map (\<lambda>a. join_row a (?name a)) act"
    unfolding read_data_def Let_def by (rule merge_left_unique)
  have rows: "map activity.truncate (read_data act ind) = act"
    unfolding eq by (simp add: comp_def truncate_join_row)
  have miss: "industry (read_data act ind ! j) = None"
    if "j < length act" "industry_id (act ! j) \<notin> fst ` set ind" for j
  proof -
    from that(2) have "industry_id (act ! j) \<notin> fst ` set ?ind" unfolding fst_canonical .
    then have "filter (\<lambda>(i, nm). i = industry_id (act ! j)) ?ind = []"
      by (force simp: filter_empty_conv)
    then have "?name (act ! j) = None" by simp
    with that(1) show ?thesis unfolding eq by (simp add: industry_join_row)
  qed
  from rows miss show ?thesis by blast
qed

theorem read_data_left_join_witness:
  "map activity.truncate (read_data activity_example industry_example) = activity_example \<and>
   map industry (read_data activity_example industry_example)
     = [Some ''Retail'', Some ''XHealthcare Co'', None] \<and>
   industry_id (activity_example ! 2) \<notin> fst ` set industry_example"
proof -
  have uniq: "\<forall>a \<in> set activity_example.
                length (filter (\<lambda>(i, nm). i = industry_id a) industry_example) \<le> 1"
    by (simp add: activity_example_def industry_example_def act_row_def)
  have names: "map industry (read_data activity_example industry_example)
                 = [Some ''Retail'', Some ''XHealthcare Co'', None]"
    by code_simp
  have nomatch: "industry_id (activity_example ! 2) \<notin> fst ` set industry_example"
    by (simp add: activity_example_def industry_example_def act_row_def)
  from read_data_left_join [OF uniq]
  have "map activity.truncate (read_data activity_example industry_example) = activity_example"
    by blast
  with names nomatch show ?thesis by blast
qed

lemma canonical_map_mem:
  "(k, nm') \<in> set (map (\<lambda>(i, nm). (i, map_option canonical nm)) ind) \<longleftrightarrow>
     (\<exists>nm. (k, nm) \<in> set ind \<and> nm' = map_option canonical nm)"
  by force

lemma merge_left_single_name:
  assumes "\<And>nm. (k, nm) \<in> set ind \<longleftrightarrow> nm = h"
  shows "(\<forall>r \<in> set (merge_left act ind). industry_id r = k \<longrightarrow> industry r = h) \<and>
         (\<forall>a \<in> set act. industry_id a = k \<longrightarrow> join_row a h \<in> set (merge_left act ind))"
proof (intro conjI ballI impI)
  from assms have "(k, h) \<in> set ind" by simp
  then have present: "k \<in> fst ` set ind" by (metis fst_conv image_eqI)
  {
    fix r assume "r \<in> set (merge_left act ind)" and k: "industry_id r = k"
    then obtain a nm where r: "r = join_row a nm"
        and m: "(industry_id a, nm) \<in> set ind \<or> nm = None \<and> industry_id a \<notin> fst ` set ind"
      unfolding set_merge_left by blast
    from r k have "industry_id a = k" by (simp add: industry_id_join_row)
    with m present assms have "nm = h" by metis
    with r show "industry r = h" by (simp add: industry_join_row)
  }
  {
    fix a assume "a \<in> set act" "industry_id a = k"
    with \<open>(k, h) \<in> set ind\<close> show "join_row a h \<in> set (merge_left act ind)"
      unfolding set_merge_left by blast
  }
qed

text \<open>
Claim C7.  When the names that the industry map gives an identifier \<open>k\<close> are the two
  spellings \<^verbatim>\<open>Health Care\<close> and \<^verbatim>\<open>Healthcare\<close>, every row of the joined frame with
  the identifier \<open>k\<close> has the name \<^verbatim>\<open>Healthcare\<close>, and every activity row with that
  identifier is in the joined frame under that name.  Rewriting a name twice gives what
  rewriting it once gives.
\<close>

theorem read_data_healthcare:
  assumes "{nm. (k, nm) \<in> set ind} = {Some ''Health Care'', Some ''Healthcare''}"
  shows "(\<forall>r \<in> set (read_data act ind). industry_id r = k \<longrightarrow> industry r = Some ''Healthcare'') \<and>
         (\<forall>a \<in> set act. industry_id a = k \<longrightarrow>
              join_row a (Some ''Healthcare'') \<in> set (read_data act ind)) \<and>
         (\<forall>s. canonical (canonical s) = canonical s)"
proof -
  let ?ind = "map (\<lambda>(i, nm). (i, map_option canonical nm)) ind"
  have rd: "read_data act ind = merge_left act ?ind"
    by (simp add: read_data_def)
  have names: "(k, nm') \<in> set ?ind \<longleftrightarrow> nm' = Some ''Healthcare''" for nm'
  proof -
    have "(k, nm') \<in> set ?ind \<longleftrightarrow> (\<exists>nm \<in> {nm. (k, nm) \<in> set ind}. nm' = map_option canonical nm)"
      unfolding canonical_map_mem by blast
    also have "\<dots> \<longleftrightarrow> nm' = Some ''Healthcare''"
      unfolding assms by (auto simp: canonical_Health_Care canonical_Healthcare_fix)
    finally show ?thesis .
  qed
  have idem: "\<forall>s. canonical (canonical s) = canonical s"
    by (rule allI) (rule canonical_idem)
  note ml = merge_left_single_name [of k ?ind "Some ''Healthcare''" act, OF names]
  have labels: "\<forall>r \<in> set (merge_left act ?ind). industry_id r = k \<longrightarrow> industry r = Some ''Healthcare''"
    using ml by (rule conjunct1)
  have rows: "\<forall>a \<in> set act. industry_id a = k \<longrightarrow>
                join_row a (Some ''Healthcare'') \<in> set (merge_left act ?ind)"
    using ml by (rule conjunct2)
  show ?thesis unfolding rd using labels rows idem by (intro conjI)
qed

theorem read_data_healthcare_witness:
  "{nm. (11, nm) \<in> set healthcare_example} = {Some ''Health Care'', Some ''Healthcare''} \<and>
   map industry (read_data activity_example healthcare_example)
     = [Some ''Retail'', Some ''Healthcare'', Some ''Healthcare'', None] \<and>
   join_row (activity_example ! 1) (Some ''Healthcare'')
     \<in> set (read_data activity_example healthcare_example) \<and>
   canonical (canonical ''XHealth Care Co'') = canonical ''XHealth Care Co''"
proof -
  have both: "{nm. (11, nm) \<in> set healthcare_example} = {Some ''Health Care'', Some ''Healthcare''}"
    by (auto simp: healthcare_example_def)
  have names: "map industry (read_data activity_example healthcare_example)
     = [Some ''Retail'', Some ''Healthcare'', Some ''Healthcare'', None]"
    by code_simp
  have row: "activity_example ! 1 \<in> set activity_example \<and> industry_id (activity_example ! 1) = 11"
    by (simp add: activity_example_def act_row_def)
  from read_data_healthcare [OF both, of activity_example] row
  have "join_row (activity_example ! 1) (Some ''Healthcare'')
          \<in> set (read_data activity_example healthcare_example) \<and>
        canonical (canonical ''XHealth Care Co'') = canonical ''XHealth Care Co''"
    by blast
  with both names show ?thesis by blast
qed

subsection \<open>The daily summary\<close>




subsection \<open>The main script\<close>

lemma cohort_keeps_some:
  assumes "df \<noteq> []" "check_consistent_cohort notna df = Inr ts"
  shows "filter (\<lambda>r. team_id r \<notin> set ts) df \<noteq> []"
proof -
  from max_cell_count_attained[OF assms(1)]
  obtain r where r: "r \<in> set df" "cell_count notna df (team_id r) = max_cell_count notna df"
    by blast
  from assms have "ts = filter (\<lambda>t. cell_count notna df t \<noteq> max_cell_count notna df)
                       (map fst (groupby (\<lambda>r. Some (team_id r)) df))"
    by (simp add: check_consistent_cohort_eq)
  with r(2) have "team_id r \<notin> set ts" by simp
  with r(1) show ?thesis by (auto simp: filter_empty_conv)
qed

lemma ds_join_row: "ds (join_row a nm) = ds a"
  by (simp add: join_row_def)

lemma read_data_ds: "r \<in> set (read_data act ind) \<Longrightarrow> ds r \<in> ds ` set act"
  unfolding read_data_def Let_def set_merge_left by (auto simp: ds_join_row)

lemma check_missing_dates_returns:
  assumes "df \<noteq> []" "\<forall>r \<in> set df. to_datetime (ds r) \<noteq> None"
  shows "\<exists>ms. check_missing_dates to_datetime df = Inr ms"
proof -
  from assms(2) have "None \<notin> set (map (\<lambda>r. to_datetime (ds r)) df)" by force
  moreover from assms(1) have "set (map (\<lambda>r. the (to_datetime (ds r))) df) \<noteq> {}" by simp
  ultimately show ?thesis unfolding check_missing_dates_def Let_def by simp
qed

lemma main_cases:
  "main to_datetime act ind =
     (case check_consistent_cohort notna_int64
             (filter (\<lambda>r. team_id r \<notin> set (check_no_active_users (read_data act ind)))
                     (read_data act ind)) of
        Inl e \<Rightarrow> Inl e
      | Inr cohort_chk \<Rightarrow>
          (case check_missing_dates to_datetime
                  (filter (\<lambda>r. team_id r \<notin> set cohort_chk)
                     (filter (\<lambda>r. team_id r \<notin> set (check_no_active_users (read_data act ind)))
                        (read_data act ind))) of
             Inl e \<Rightarrow> Inl e
           | Inr missing_dts \<Rightarrow>
               Inr \<lparr>final_df = filter (\<lambda>r. team_id r \<notin> set cohort_chk)
                     (filter (\<lambda>r. team_id r \<notin> set (check_no_active_users (read_data act ind)))
                        (read_data act ind)),
                    final_missing_dts = missing_dts,
                    final_ind_users = active_users_by_ind (filter (\<lambda>r. team_id r \<notin> set cohort_chk)
                     (filter (\<lambda>r. team_id r \<notin> set (check_no_active_users (read_data act ind)))
                        (read_data act ind))),
                    final_cntry_summ = avg_team_sz_top_countries (filter (\<lambda>r. team_id r \<notin> set cohort_chk)
                     (filter (\<lambda>r. team_id r \<notin> set (check_no_active_users (read_data act ind)))
                        (read_data act ind))) 5,
                    final_dly_summ = daily_summary_figues (filter (\<lambda>r. team_id r \<notin> set cohort_chk)
                     (filter (\<lambda>r. team_id r \<notin> set (check_no_active_users (read_data act ind)))
                        (read_data act ind)))\<rparr>))"
  unfolding main_def Let_def ..

lemma main_returns:
  assumes "filter (\<lambda>r. team_id r \<notin> set (check_no_active_users (read_data act ind)))
                  (read_data act ind) \<noteq> []"
    and "\<forall>a \<in> set act. to_datetime (ds a) \<noteq> None"
  shows "\<exists>res. main to_datetime act ind = Inr res"
proof -
  let ?df1 = "filter (\<lambda>r. team_id r \<notin> set (check_no_active_users (read_data act ind)))
                     (read_data act ind)"
  from check_consistent_cohort_eq[OF assms(1), of notna_int64]
  obtain cohort where c: "check_consistent_cohort notna_int64 ?df1 = Inr cohort" by blast
  let ?df2 = "filter (\<lambda>r. team_id r \<notin> set cohort) ?df1"
  have ne: "?df2 \<noteq> []" by (rule cohort_keeps_some[OF assms(1) c])
  have "\<forall>r \<in> set ?df2. to_datetime (ds r) \<noteq> None"
  proof
    fix r assume "r \<in> set ?df2"
    then have "r \<in> set (read_data act ind)" by simp
    from read_data_ds[OF this] obtain a where "a \<in> set act" "ds r = ds a" by auto
    with assms(2) show "to_datetime (ds r) \<noteq> None" by simp
  qed
  from check_missing_dates_returns[OF ne this]
  obtain ms where "check_missing_dates to_datetime ?df2 = Inr ms" by blast
  with c show ?thesis unfolding main_cases by simp
qed

text \<open>
Claim C9.  When the script reaches the aggregators, the frame it hands them is the
  joined frame without the rows whose team is in the list of
  \<^verbatim>\<open>check_no_active_users\<close> or in the list of \<^verbatim>\<open>check_consistent_cohort\<close> (the
  latter computed after the first exclusion): a row is dropped exactly when its team is
  in one of the two lists.  The missing dates are computed from that frame and kept
  aside; the three summaries are those of that frame; and with any other date reader
  under which the script also returns, the frame and the summaries are the same.
\<close>

theorem main_filters_by_team:
  assumes "main to_datetime act ind = Inr res"
  shows "\<exists>cohort_chk.
           check_consistent_cohort notna_int64
             (filter (\<lambda>r. team_id r \<notin> set (check_no_active_users (read_data act ind)))
                     (read_data act ind)) = Inr cohort_chk \<and>
           final_df res =
             filter (\<lambda>r. \<not> (team_id r \<in> set (check_no_active_users (read_data act ind)) \<or>
                             team_id r \<in> set cohort_chk)) (read_data act ind) \<and>
           check_missing_dates to_datetime (final_df res) = Inr (final_missing_dts res) \<and>
           final_ind_users res = active_users_by_ind (final_df res) \<and>
           final_cntry_summ res = avg_team_sz_top_countries (final_df res) 5 \<and>
           final_dly_summ res = daily_summary_figues (final_df res) \<and>
           (\<forall>to_datetime' res'. main to_datetime' act ind = Inr res' \<longrightarrow>
                final_df res' = final_df res \<and> final_ind_users res' = final_ind_users res \<and>
                final_cntry_summ res' = final_cntry_summ res \<and>
                final_dly_summ res' = final_dly_summ res)"
proof -
  let ?df1 = "filter (\<lambda>r. team_id r \<notin> set (check_no_active_users (read_data act ind)))
                     (read_data act ind)"
  from assms obtain cohort where c: "check_consistent_cohort notna_int64 ?df1 = Inr cohort"
    unfolding main_cases by (cases "check_consistent_cohort notna_int64 ?df1") auto
  let ?df2 = "filter (\<lambda>r. team_id r \<notin> set cohort) ?df1"
  from assms c obtain ms where m: "check_missing_dates to_datetime ?df2 = Inr ms"
    unfolding main_cases by (cases "check_missing_dates to_datetime ?df2") auto
  from assms c m have res: "res = \<lparr>final_df = ?df2, final_missing_dts = ms,
        final_ind_users = active_users_by_ind ?df2,
        final_cntry_summ = avg_team_sz_top_countries ?df2 5,
        final_dly_summ = daily_summary_figues ?df2\<rparr>"
    unfolding main_cases by simp
  have df2: "?df2 = filter (\<lambda>r. \<not> (team_id r \<in> set (check_no_active_users (read_data act ind)) \<or>
                             team_id r \<in> set cohort)) (read_data act ind)"
    by (simp add: conj_commute)
  have other: "final_df res' = final_df res \<and> final_ind_users res' = final_ind_users res \<and>
                final_cntry_summ res' = final_cntry_summ res \<and>
                final_dly_summ res' = final_dly_summ res"
    if "main to_datetime' act ind = Inr res'" for to_datetime' res'
  proof -
    from that c obtain ms' where m': "check_missing_dates to_datetime' ?df2 = Inr ms'"
      unfolding main_cases by (cases "check_missing_dates to_datetime' ?df2") auto
    from that c m' have "res' = \<lparr>final_df = ?df2, final_missing_dts = ms',
        final_ind_users = active_users_by_ind ?df2,
        final_cntry_summ = avg_team_sz_top_countries ?df2 5,
        final_dly_summ = daily_summary_figues ?df2\<rparr>"
      unfolding main_cases by simp
    with res show ?thesis by simp
  qed
  show ?thesis
  proof (intro exI[of _ cohort] conjI allI impI)
    show "check_consistent_cohort notna_int64 ?df1 = Inr cohort" by (rule c)
    show "final_df res = filter (\<lambda>r. \<not> (team_id r \<in> set (check_no_active_users (read_data act ind)) \<or>
                             team_id r \<in> set cohort)) (read_data act ind)"
      using df2 by (simp add: res)
    show "check_missing_dates to_datetime (final_df res) = Inr (final_missing_dts res)"
      using m by (simp add: res)
    show "final_ind_users res = active_users_by_ind (final_df res)" by (simp add: res)
    show "final_cntry_summ res = avg_team_sz_top_countries (final_df res) 5" by (simp add: res)
    show "final_dly_summ res = daily_summary_figues (final_df res)" by (simp add: res)
  qed (use other in blast)+
qed

theorem main_filters_by_team_witness:
  "\<exists>res. main iso_date pipeline_example industry_example = Inr res \<and>
         check_no_active_users (read_data pipeline_example industry_example) = [2] \<and>
         check_consistent_cohort notna_int64
           (filter (\<lambda>r. team_id r \<notin> set [2]) (read_data pipeline_example industry_example))
           = Inr [3] \<and>
         final_df res =
           filter (\<lambda>r. \<not> (team_id r \<in> set [2] \<or> team_id r \<in> set [3]))
                  (read_data pipeline_example industry_example) \<and>
         map team_id (final_df res) = [1, 1] \<and>
         final_missing_dts res = [18473]"
proof -
  have total: "filter (\<lambda>r. team_id r \<notin> set (check_no_active_users
                    (read_data pipeline_example industry_example)))
                 (read_data pipeline_example industry_example) \<noteq> []"
    by code_simp
  have parse: "\<forall>a \<in> set pipeline_example. iso_date (ds a) \<noteq> None"
    by code_simp
  from main_returns [OF total parse]
  obtain res where res: "main iso_date pipeline_example industry_example = Inr res" by blast
  have inactive: "check_no_active_users (read_data pipeline_example industry_example) = [2]"
    by code_simp
  have cohort: "check_consistent_cohort notna_int64
           (filter (\<lambda>r. team_id r \<notin> set [2]) (read_data pipeline_example industry_example))
           = Inr [3]"
    by code_simp
  from main_filters_by_team [OF res] cohort
  have df: "final_df res =
           filter (\<lambda>r. \<not> (team_id r \<in> set [2] \<or> team_id r \<in> set [3]))
                  (read_data pipeline_example industry_example)"
    and ms: "check_missing_dates iso_date (final_df res) = Inr (final_missing_dts res)"
    unfolding inactive by auto
  have teams: "map team_id (filter (\<lambda>r. \<not> (team_id r \<in> set [2] \<or> team_id r \<in> set [3]))
                  (read_data pipeline_example industry_example)) = [1, 1]"
    by code_simp
  have "check_missing_dates iso_date
          (filter (\<lambda>r. \<not> (team_id r \<in> set [2] \<or> team_id r \<in> set [3]))
                  (read_data pipeline_example industry_example)) = Inr [18473]"
    by code_simp
  with ms df have "final_missing_dts res = [18473]" by simp
  with res inactive cohort df teams show ?thesis by auto
qed

subsection \<open>Team size in the top countries\<close>

lemma avg_team_sz_top_countries_sorted:
  "sorted_wrt (\<lambda>x y. y \<le> x) (map avg_team_sz (avg_team_sz_top_countries df top_n))"
  unfolding avg_team_sz_top_countries_def Let_def by (rule sorted_desc_sort_key)

lemma avg_team_sz_top_countries_rank:
  "\<forall>row \<in> set (avg_team_sz_top_countries df top_n). teams_cnt_rank row \<le> of_int top_n"
  unfolding avg_team_sz_top_countries_def Let_def by simp

lemma length_filter_sort_key: "length (filter P (sort_key f xs)) = length (filter P xs)"
  by (simp add: filter_sort)

lemma avg_team_sz_top_countries_length:
  "length (avg_team_sz_top_countries df top_n) =
     length (filter (\<lambda>n. rank_desc (country_counts df) n \<le> of_int top_n) (country_counts df))"
proof -
  let ?g = "groupby country (filter (\<lambda>r. ''2020-07-01'' \<le> ds r) df)"
  let ?summ = "map (\<lambda>(c, rows). (c, nunique (map team_id rows), mean (map active_users rows))) ?g"
  have counts: "map (\<lambda>(c, n, m). n) ?summ = country_counts df"
    by (simp add: country_counts_def comp_def case_prod_beta)
  let ?rows = "map (\<lambda>(c, n, m). \<lparr>c_country = c, countd_teams = n, avg_team_sz = m,
                      teams_cnt_rank = rank_desc (country_counts df) n\<rparr>) ?summ"
  have "length (avg_team_sz_top_countries df top_n) =
          length (filter (\<lambda>r. teams_cnt_rank r \<le> of_int top_n) ?rows)"
    unfolding avg_team_sz_top_countries_def Let_def counts
    by (simp only: length_sort length_filter_sort_key)
  also have "\<dots> = length (filter (\<lambda>n. rank_desc (country_counts df) n \<le> of_int top_n)
                               (map (\<lambda>(c, n, m). n) ?summ))"
    by (simp add: filter_map comp_def case_prod_beta)
  finally show ?thesis unfolding counts .
qed

lemma rank_desc_distinct:
  assumes "distinct vs" "v \<in> set vs"
  shows "rank_desc vs v = of_nat (card {x \<in> set vs. v < x}) + 1"
proof -
  have one: "length (filter (\<lambda>x. x = v) vs) = 1"
    using assms by (induction vs) (auto simp: filter_empty_conv)
  have gt: "length (filter (\<lambda>x. v < x) vs) = card {x \<in> set vs. v < x}"
  proof -
    have "distinct (filter (\<lambda>x. v < x) vs)" using assms(1) by (rule distinct_filter)
    then have "card (set (filter (\<lambda>x. v < x) vs)) = length (filter (\<lambda>x. v < x) vs)"
      by (rule distinct_card)
    then show ?thesis by simp
  qed
  show ?thesis unfolding rank_desc_def one gt by simp
qed

lemma top_ranks_distinct:
  assumes "distinct vs"
  shows "length (filter (\<lambda>v. rank_desc vs v \<le> of_nat k) vs) \<le> k"
proof -
  let ?g = "\<lambda>v. card {x \<in> set vs. v < x}"
  let ?T = "{v \<in> set vs. ?g v < k}"
  have sub: "set (filter (\<lambda>v. rank_desc vs v \<le> of_nat k) vs) \<subseteq> ?T"
  proof
    fix v assume "v \<in> set (filter (\<lambda>v. rank_desc vs v \<le> of_nat k) vs)"
    then have v: "v \<in> set vs" "rank_desc vs v \<le> of_nat k" by auto
    from v(2) have "(of_nat (?g v) :: rat) + 1 \<le> of_nat k"
      by (simp only: rank_desc_distinct[OF assms v(1)])
    then have "(of_nat (?g v + 1) :: rat) \<le> of_nat k" by simp
    then have "?g v + 1 \<le> k" by (simp only: of_nat_le_iff)
    with v(1) show "v \<in> ?T" by simp
  qed
  have inj: "inj_on ?g ?T"
  proof (rule inj_onI)
    fix a b assume a: "a \<in> ?T" and b: "b \<in> ?T" and eq: "?g a = ?g b"
    have less: "?g q < ?g p" if "p < q" "q \<in> set vs" for p q
    proof (rule psubset_card_mono)
      show "finite {x \<in> set vs. p < x}" by simp
      show "{x \<in> set vs. q < x} \<subset> {x \<in> set vs. p < x}" using that by auto
    qed
    show "a = b"
    proof (rule ccontr)
      assume "a \<noteq> b"
      then consider "a < b" | "b < a" by linarith
      then show False using less[of a b] less[of b a] a b eq by cases auto
    qed
  qed
  have "card ?T \<le> card {..<k}"
    by (rule card_inj_on_le[OF inj]) auto
  then have T: "card ?T \<le> k" by simp
  have "distinct (filter (\<lambda>v. rank_desc vs v \<le> of_nat k) vs)"
    using assms by (rule distinct_filter)
  then have "length (filter (\<lambda>v. rank_desc vs v \<le> of_nat k) vs)
          = card (set (filter (\<lambda>v. rank_desc vs v \<le> of_nat k) vs))"
    by (rule distinct_card[symmetric])
  also have "\<dots> \<le> card ?T" by (rule card_mono[OF _ sub]) simp
  finally show ?thesis using T by simp
qed

lemma avg_team_sz_top_countries_distinct_counts:
  assumes "distinct (country_counts df)" "0 \<le> top_n"
  shows "length (avg_team_sz_top_countries df top_n) \<le> nat top_n"
proof -
  from assms(2) have eq: "(of_int top_n :: rat) = of_nat (nat top_n)" by simp
  show ?thesis
    unfolding avg_team_sz_top_countries_length eq by (rule top_ranks_distinct[OF assms(1)])
qed

text \<open>
Claim C1 says that \<^verbatim>\<open>avg_team_sz_top_countries(table, 5)\<close> returns at most 5
  countries, each ranked in the top 5 by distinct team count in the window from
  2020-07-01, in descending order of \<^verbatim>\<open>avg_team_sz\<close>.  The order and the bound on the
  rank hold for every frame (the two lemmas above), and at most \<open>top_n\<close> countries are
  returned when no two countries have the same team count.  Countries with the same team
  count share the average of their positions as rank: on the frame \<open>tied_example\<close>, six
  countries with one team each, every rank is 3.5 and the function returns the six
  countries.
\<close>

theorem avg_team_sz_top_countries_tied:
  "map c_country (avg_team_sz_top_countries tied_example 5)
     = [''AR'', ''BR'', ''CA'', ''DE'', ''ES'', ''FR''] \<and>
   map countd_teams (avg_team_sz_top_countries tied_example 5) = [1, 1, 1, 1, 1, 1] \<and>
   map teams_cnt_rank (avg_team_sz_top_countries tied_example 5)
     = [7 / 2, 7 / 2, 7 / 2, 7 / 2, 7 / 2, 7 / 2] \<and>
   length (avg_team_sz_top_countries tied_example 5) = 6"
  by code_simp

end
